theory Spec2Isabelle
  imports Complex_Main
begin

section \<open>JavaScript numbers\<close>

text \<open>
  The recorder computes with JavaScript numbers. A number is modelled as a real, or one
  of the three special values that the code can produce: \<open>NaN\<close> (from \<open>0 / 0\<close>, when
  \<open>calculateRMS\<close> is given an empty array), and the two infinities (\<open>Math.max\<close> of no
  arguments is \<open>-Infinity\<close>; a non-zero number divided by the length of an empty
  \<open>buffers\<close> array is infinite). Finite arithmetic is exact: the rounding of IEEE 754
  doubles is not modelled, the constant \<open>0.35\<close> is the rational number, and the two zeros
  are not told apart (every divisor of this program is an array length or a positive
  constant, so it is never \<open>-0\<close>). Audio samples, the elements of a \<open>Float32Array\<close>
  delivered by the audio graph, are finite reals.
\<close>

datatype jsnum = NaN | NegInfinity | Fin real | Infinity

text \<open>The operator \<open>/\<close>.\<close>

fun js_div :: "jsnum \<Rightarrow> jsnum \<Rightarrow> jsnum" where
  "js_div NaN y = NaN"
| "js_div x NaN = NaN"
| "js_div (Fin a) (Fin b) =
     (if b = 0 then (if a = 0 then NaN else if 0 < a then Infinity else NegInfinity)
      else Fin (a / b))"
| "js_div (Fin a) Infinity = Fin 0"
| "js_div (Fin a) NegInfinity = Fin 0"
| "js_div Infinity (Fin b) = (if 0 \<le> b then Infinity else NegInfinity)"
| "js_div NegInfinity (Fin b) = (if 0 \<le> b then NegInfinity else Infinity)"
| "js_div Infinity Infinity = NaN"
| "js_div Infinity NegInfinity = NaN"
| "js_div NegInfinity Infinity = NaN"
| "js_div NegInfinity NegInfinity = NaN"

text \<open>\<open>Math.sqrt\<close>.\<close>

fun js_sqrt :: "jsnum \<Rightarrow> jsnum" where
  "js_sqrt NaN = NaN"
| "js_sqrt NegInfinity = NaN"
| "js_sqrt (Fin a) = (if a < 0 then NaN else Fin (sqrt a))"
| "js_sqrt Infinity = Infinity"

text \<open>The operator \<open>>\<close>: every comparison with \<open>NaN\<close> is false.\<close>

fun js_gt :: "jsnum \<Rightarrow> jsnum \<Rightarrow> bool" where
  "js_gt NaN y = False"
| "js_gt x NaN = False"
| "js_gt NegInfinity y = False"
| "js_gt (Fin a) NegInfinity = True"
| "js_gt (Fin a) (Fin b) = (b < a)"
| "js_gt (Fin a) Infinity = False"
| "js_gt Infinity NegInfinity = True"
| "js_gt Infinity (Fin b) = True"
| "js_gt Infinity Infinity = False"

text \<open>
  \<open>Math.max\<close> of the elements of an array (\<open>Math.max.apply(null, xs)\<close>): \<open>-Infinity\<close> for
  no argument, \<open>NaN\<close> as soon as one argument is \<open>NaN\<close>, the largest argument otherwise.
\<close>

fun js_max2 :: "jsnum \<Rightarrow> jsnum \<Rightarrow> jsnum" where
  "js_max2 NaN y = NaN"
| "js_max2 x NaN = NaN"
| "js_max2 x y = (if js_gt y x then y else x)"

definition Math_max :: "jsnum list \<Rightarrow> jsnum" where
  "Math_max xs = foldl js_max2 NegInfinity xs"

text \<open>
  The loop variables \<open>firstChunkAboveThreshold\<close> and \<open>lastChunkAboveThreshold\<close> hold
  \<open>null\<close> or a chunk number. In arithmetic \<open>null\<close> converts to \<open>0\<close>.
\<close>

definition to_number :: "nat option \<Rightarrow> int" where
  "to_number v = (case v of None \<Rightarrow> 0 | Some k \<Rightarrow> int k)"

section \<open>The loudness meter\<close>

text \<open>
  \<^verbatim>\<open>
  calculateRMS (samples) {
      const sum = samples.reduce((acc, v) => acc + Math.pow(v, 2), 0);
      const rms = Math.sqrt(sum / samples.length);
      const unity = 0.35;
      const val = rms / unity;
      return Math.sqrt(val);
  }
  \<close>
\<close>

definition unity :: real where
  "unity = 0.35"

definition calculateRMS :: "real list \<Rightarrow> jsnum" where
  "calculateRMS samples =
     (let sum = foldl (\<lambda>acc v. acc + v ^ 2) 0 samples;
          rms = js_sqrt (js_div (Fin sum) (Fin (real (length samples))));
          val = js_div rms (Fin unity)
      in js_sqrt val)"

text \<open>
  The closed form of the specification: the square root of the root mean square divided
  by \<open>0.35\<close>.
\<close>

definition rms_closed_form :: "real list \<Rightarrow> real" where
  "rms_closed_form samples =
     sqrt (sqrt ((\<Sum>v\<leftarrow>samples. v ^ 2) / real (length samples)) / 0.35)"

section \<open>The recorder and its environment\<close>

text \<open>
  Typed arrays live in a store: a \<open>Float32Array\<close> is an address, \<open>heap\<close> gives its
  contents and \<open>next_addr\<close> is the first address not yet allocated. Audio nodes and media
  streams are opaque handles. Every call the recorder makes to its environment (the
  callbacks \<open>onStarted\<close>, \<open>onUpdate\<close> and \<open>onError\<close> of its client, and the calls to the
  browser) is appended to \<open>trace\<close>. The client's callbacks are taken to return normally
  and not to call back into the recorder; the calls to the audio graph (\<open>createGain\<close>,
  \<open>connect\<close>, \<open>disconnect\<close>, \<open>stop\<close> of a track) do not throw.
\<close>

type_synonym addr = nat
type_synonym handle = nat

datatype error = TypeError | RangeError | DeviceError nat

datatype call =
    GetUserMedia
  | OnStarted
  | OnUpdate jsnum
  | OnError error
  | RequestAnimationFrame
  | SetOnaudioprocess handle bool
  | Connect handle handle
  | Disconnect handle
  | StopTrack handle

text \<open>
  The fields of an \<open>AudioRecorder\<close> object, as the constructor declares them
  (\<open>analyserNode\<close> is first assigned by \<open>attachUserMediaStream\<close>; \<open>None\<close> is \<open>null\<close> or
  \<open>undefined\<close>), followed by the environment: the sample rate of the shared audio
  context, the store of typed arrays, the next fresh node handle and the trace.
\<close>

record state =
  bufferLength :: nat
  userMediaStream :: "handle option"
  mediaStreamSource :: "handle option"
  sourceNode :: "handle option"
  scriptProcessorNode :: "handle option"
  analyserNode :: "handle option"
  recordedSamples :: nat
  recording :: bool
  started :: bool
  buffers :: "addr list"
  disposed :: bool
  ctx_sampleRate :: real
  heap :: "addr \<Rightarrow> real list"
  next_addr :: addr
  next_handle :: handle
  trace :: "call list"

text \<open>\<open>audioContext.destination\<close>.\<close>

definition destination :: handle where
  "destination = 0"

text \<open>The constructor; \<open>rate\<close> is the sample rate of the shared audio context.\<close>

definition constructor :: "real \<Rightarrow> state" where
  "constructor rate =
     \<lparr> bufferLength = 1024,
       userMediaStream = None,
       mediaStreamSource = None,
       sourceNode = None,
       scriptProcessorNode = None,
       analyserNode = None,
       recordedSamples = 0,
       recording = False,
       started = False,
       buffers = [],
       disposed = False,
       ctx_sampleRate = rate,
       heap = (\<lambda>a. []),
       next_addr = 0,
       next_handle = 1,
       trace = [] \<rparr>"

definition emit :: "call \<Rightarrow> state \<Rightarrow> state" where
  "emit c s = s\<lparr>trace := trace s @ [c]\<rparr>"

text \<open>\<open>new Float32Array(xs)\<close> copies \<open>xs\<close> into a new array; \<open>new Float32Array(n)\<close> is \<open>n\<close> zeros.\<close>

definition new_Float32Array :: "real list \<Rightarrow> state \<Rightarrow> addr \<times> state" where
  "new_Float32Array xs s =
     (next_addr s, s\<lparr>heap := (heap s)(next_addr s := xs), next_addr := Suc (next_addr s)\<rparr>)"

text \<open>The node constructors of the audio context return a fresh handle.\<close>

definition create_node :: "state \<Rightarrow> handle \<times> state" where
  "create_node s = (next_handle s, s\<lparr>next_handle := Suc (next_handle s)\<rparr>)"

subsection \<open>startListening and startRecording\<close>

text \<open>
  \<^verbatim>\<open>
  attachUserMediaStream (userMediaStream, onUpdate) {
      this.userMediaStream = userMediaStream;
      this.mediaStreamSource = this.audioContext.createMediaStreamSource(userMediaStream);
      this.sourceNode = this.audioContext.createGain();
      this.scriptProcessorNode = this.audioContext.createScriptProcessor(this.bufferLength, 2, 2);
      this.scriptProcessorNode.onaudioprocess = processEvent => { ... };
      this.analyserNode = this.audioContext.createAnalyser();
      ...
      requestAnimationFrame(update);
      this.mediaStreamSource.connect(this.sourceNode);
      this.sourceNode.connect(this.analyserNode);
      this.analyserNode.connect(this.scriptProcessorNode);
      this.scriptProcessorNode.connect(this.audioContext.destination);
  }
  \<close>
\<close>

definition attachUserMediaStream :: "handle \<Rightarrow> state \<Rightarrow> state" where
  "attachUserMediaStream strm s =
     (let s1 = s\<lparr>userMediaStream := Some strm\<rparr>;
          (mss, s2) = create_node s1;
          s3 = s2\<lparr>mediaStreamSource := Some mss\<rparr>;
          (src, s4) = create_node s3;
          s5 = s4\<lparr>sourceNode := Some src\<rparr>;
          (spn, s6) = create_node s5;
          s7 = emit (SetOnaudioprocess spn True) (s6\<lparr>scriptProcessorNode := Some spn\<rparr>);
          (an, s8) = create_node s7;
          s9 = emit RequestAnimationFrame (s8\<lparr>analyserNode := Some an\<rparr>)
      in emit (Connect spn destination)
           (emit (Connect an spn) (emit (Connect src an) (emit (Connect mss src) s9))))"

text \<open>
  The success callback of \<open>getUserMedia\<close>:
  \<^verbatim>\<open>
  userMediaStream => {
      if (!this.disposed) {
          this.started = true;
          onStarted();
          this.attachUserMediaStream(userMediaStream, onUpdate);
      }
  }
  \<close>
\<close>

definition userMediaSuccess :: "handle \<Rightarrow> state \<Rightarrow> state" where
  "userMediaSuccess strm s =
     (if \<not> disposed s
      then attachUserMediaStream strm (emit OnStarted (s\<lparr>started := True\<rparr>))
      else s)"

text \<open>The failure callback: \<^verbatim>\<open>e => { if (!this.disposed) { onError(e); } }\<close>.\<close>

definition userMediaFailure :: "error \<Rightarrow> state \<Rightarrow> state" where
  "userMediaFailure e s = (if \<not> disposed s then emit (OnError e) s else s)"

text \<open>
  \<open>startListening\<close> calls \<open>navigator.getUserMedia\<close> inside \<open>try\<close>; \<open>thrown\<close> is the
  exception that call throws synchronously, if any, which the \<open>catch\<close> block reports with
  \<^verbatim>\<open>if (!this.disposed) { onError(e); }\<close>.
\<close>

definition startListening :: "error option \<Rightarrow> state \<Rightarrow> state" where
  "startListening thrown s =
     (let s1 = emit GetUserMedia s
      in case thrown of
           None \<Rightarrow> s1
         | Some e \<Rightarrow> (if \<not> disposed s1 then emit (OnError e) s1 else s1))"

definition startRecording :: "state \<Rightarrow> state" where
  "startRecording s = s\<lparr>recording := True\<rparr>"

subsection \<open>The two periodic callbacks\<close>

text \<open>
  The handler of the script processor; \<open>chunk\<close> is
  \<open>processEvent.inputBuffer.getChannelData(0)\<close>.
  \<^verbatim>\<open>
  processEvent => {
      if (this.recording && !this.disposed) {
          this.buffers.push(new Float32Array(processEvent.inputBuffer.getChannelData(0)));
      }
  }
  \<close>
\<close>

definition onaudioprocess :: "real list \<Rightarrow> state \<Rightarrow> state" where
  "onaudioprocess chunk s =
     (if recording s \<and> \<not> disposed s
      then (let (a, s1) = new_Float32Array chunk s in s1\<lparr>buffers := buffers s1 @ [a]\<rparr>)
      else s)"

text \<open>
  The animation frame callback; \<open>dataArray\<close> is what \<open>getFloatTimeDomainData\<close> writes into
  the callback's own array. Reading a method of an absent \<open>analyserNode\<close> throws into the
  event loop, after the next frame has been requested.
  \<^verbatim>\<open>
  const update = () => {
      if (this.disposed) return;
      requestAnimationFrame(update);
      this.analyserNode.getFloatTimeDomainData(dataArray);
      onUpdate(this.calculateRMS(dataArray));
  };
  \<close>
\<close>

definition update :: "real list \<Rightarrow> state \<Rightarrow> state" where
  "update dataArray s =
     (if disposed s then s
      else (let s1 = emit RequestAnimationFrame s
            in case analyserNode s1 of
                 None \<Rightarrow> s1
               | Some an \<Rightarrow> emit (OnUpdate (calculateRMS dataArray)) s1))"

subsection \<open>stop\<close>

text \<open>
  The scan for the first and the last chunk above the threshold:
  \<^verbatim>\<open>
  let firstChunkAboveThreshold = null;
  let lastChunkAboveThreshold = null;
  for (let i = 0; i < chunkLevels.length; i++) {
      if (chunkLevels[i] > threshold) {
          if (firstChunkAboveThreshold === null) firstChunkAboveThreshold = i + 1;
          lastChunkAboveThreshold = i + 1;
      }
  }
  \<close>
\<close>

function scan_loop ::
  "jsnum list \<Rightarrow> jsnum \<Rightarrow> nat \<Rightarrow> nat option \<Rightarrow> nat option \<Rightarrow> nat option \<times> nat option" where
  "scan_loop chunkLevels threshold i firstChunkAboveThreshold lastChunkAboveThreshold =
     (if i < length chunkLevels
      then (if js_gt (chunkLevels ! i) threshold
            then scan_loop chunkLevels threshold (i + 1)
                   (if firstChunkAboveThreshold = None then Some (i + 1)
                    else firstChunkAboveThreshold)
                   (Some (i + 1))
            else scan_loop chunkLevels threshold (i + 1)
                   firstChunkAboveThreshold lastChunkAboveThreshold)
      else (firstChunkAboveThreshold, lastChunkAboveThreshold))"
  by pat_completeness auto
termination
  by (relation "measure (\<lambda>(chunkLevels, threshold, i, f, l). length chunkLevels - i)") auto

declare scan_loop.simps [simp del]

text \<open>
  \<open>target.set(source, offset)\<close> on typed arrays throws a \<open>RangeError\<close> when the source does
  not fit at the offset, and overwrites that part of the target otherwise.
\<close>

definition typed_array_set ::
  "addr \<Rightarrow> real list \<Rightarrow> nat \<Rightarrow> (addr \<Rightarrow> real list) \<Rightarrow> error + (addr \<Rightarrow> real list)" where
  "typed_array_set target source offset h =
     (if length (h target) < offset + length source then Inl RangeError
      else Inr (h(target := take offset (h target) @ source
                              @ drop (offset + length source) (h target))))"

text \<open>
  The copy of the chunks into the result:
  \<^verbatim>\<open>
  let offset = 0;
  for (let i = 0; i < this.buffers.length; i++) {
      const bufferChunk = this.buffers[i];
      buffer.set(bufferChunk, offset);
      offset += bufferChunk.length;
  }
  \<close>
\<close>

function copy_loop ::
  "addr list \<Rightarrow> addr \<Rightarrow> nat \<Rightarrow> nat \<Rightarrow> (addr \<Rightarrow> real list) \<Rightarrow> error + (addr \<Rightarrow> real list)" where
  "copy_loop bufs buffer i offset h =
     (if i < length bufs
      then (let bufferChunk = bufs ! i
            in case typed_array_set buffer (h bufferChunk) offset h of
                 Inl e \<Rightarrow> Inl e
               | Inr h' \<Rightarrow> copy_loop bufs buffer (i + 1) (offset + length (h' bufferChunk)) h')
      else Inr h)"
  by pat_completeness auto
termination
  by (relation "measure (\<lambda>(bufs, buffer, i, offset, h). length bufs - i)") auto

declare copy_loop.simps [simp del]

record trim_result =
  levels :: "jsnum list"
  samples :: addr
  sampleRate :: real
  trimStart :: jsnum
  trimEnd :: jsnum

text \<open>The values of the local variables of \<open>stop\<close> before the copy.\<close>

definition chunkLevels_of :: "state \<Rightarrow> jsnum list" where
  "chunkLevels_of s = map (\<lambda>buffer. calculateRMS (heap s buffer)) (buffers s)"

definition threshold_of :: "state \<Rightarrow> jsnum" where
  "threshold_of s = js_div (Math_max (chunkLevels_of s)) (Fin 8)"

definition aboveThreshold :: "state \<Rightarrow> nat option \<times> nat option" where
  "aboveThreshold s = scan_loop (chunkLevels_of s) (threshold_of s) 0 None None"

text \<open>
  \<^verbatim>\<open>
  stop () {
      const chunkLevels = this.buffers.map(buffer => this.calculateRMS(buffer));
      const maxRMS = Math.max.apply(null, chunkLevels);
      const threshold = maxRMS / 8;
      ... (the scan)
      const trimStart = Math.max(2, firstChunkAboveThreshold - 2) / this.buffers.length;
      const trimEnd = Math.min(this.buffers.length - 2, lastChunkAboveThreshold + 2) / this.buffers.length;
      const buffer = new Float32Array(this.buffers.length * this.bufferLength);
      ... (the copy)
      return {levels: chunkLevels, samples: buffer, sampleRate: this.audioContext.sampleRate,
              trimStart: trimStart, trimEnd: trimEnd};
  }
  \<close>
  The result is the returned object, or the exception when \<open>buffer.set\<close> throws, and the
  state after the call. The arguments of \<open>Math.max\<close> and \<open>Math.min\<close> are integers here.
\<close>

definition stop :: "state \<Rightarrow> (error + trim_result) \<times> state" where
  "stop s =
     (let chunkLevels = map (\<lambda>buffer. calculateRMS (heap s buffer)) (buffers s);
          maxRMS = Math_max chunkLevels;
          threshold = js_div maxRMS (Fin 8);
          (firstChunkAboveThreshold, lastChunkAboveThreshold) =
             scan_loop chunkLevels threshold 0 None None;
          trimStart = js_div (Fin (real_of_int (max 2 (to_number firstChunkAboveThreshold - 2))))
                        (Fin (real (length (buffers s))));
          trimEnd = js_div (Fin (real_of_int (min (int (length (buffers s)) - 2)
                                                 (to_number lastChunkAboveThreshold + 2))))
                      (Fin (real (length (buffers s))));
          (buffer, s1) = new_Float32Array (replicate (length (buffers s) * bufferLength s) 0) s
      in case copy_loop (buffers s1) buffer 0 0 (heap s1) of
           Inl e \<Rightarrow> (Inl e, s1)
         | Inr h \<Rightarrow>
             (Inr \<lparr> levels = chunkLevels, samples = buffer, sampleRate = ctx_sampleRate s1,
                    trimStart = trimStart, trimEnd = trimEnd \<rparr>,
              s1\<lparr>heap := h\<rparr>))"

subsection \<open>dispose\<close>

text \<open>
  \<^verbatim>\<open>
  dispose () {
      if (this.started) {
          this.scriptProcessorNode.onaudioprocess = null;
          this.scriptProcessorNode.disconnect();
          this.analyserNode.disconnect();
          this.sourceNode.disconnect();
          this.mediaStreamSource.disconnect();
          this.userMediaStream.getAudioTracks()[0].stop();
      }
      this.disposed = true;
  }
  \<close>
  Each statement of the teardown throws a \<open>TypeError\<close> when its field is absent; the
  statements before it have run. The result is the exception, if any, and the state.
\<close>

definition dispose :: "state \<Rightarrow> error option \<times> state" where
  "dispose s =
     (if started s then
        (case scriptProcessorNode s of
           None \<Rightarrow> (Some TypeError, s)
         | Some spn \<Rightarrow>
             (let s1 = emit (Disconnect spn) (emit (SetOnaudioprocess spn False) s)
              in case analyserNode s1 of
                   None \<Rightarrow> (Some TypeError, s1)
                 | Some an \<Rightarrow>
                     (let s2 = emit (Disconnect an) s1
                      in case sourceNode s2 of
                           None \<Rightarrow> (Some TypeError, s2)
                         | Some src \<Rightarrow>
                             (let s3 = emit (Disconnect src) s2
                              in case mediaStreamSource s3 of
                                   None \<Rightarrow> (Some TypeError, s3)
                                 | Some mss \<Rightarrow>
                                     (let s4 = emit (Disconnect mss) s3
                                      in case userMediaStream s4 of
                                           None \<Rightarrow> (Some TypeError, s4)
                                         | Some strm \<Rightarrow>
                                             (None, (emit (StopTrack strm) s4)\<lparr>disposed := True\<rparr>))))))
      else (None, s\<lparr>disposed := True\<rparr>))"

subsection \<open>Runs\<close>

text \<open>
  What can happen to a recorder: a call of one of its methods, or the arrival of one of the
  callbacks it has handed out. A run performs a list of these in order; a method that
  throws leaves the state it has reached.
\<close>

datatype action =
    StartListening "error option"
  | StartRecording
  | Stop
  | Dispose
  | UserMediaSuccess handle
  | UserMediaFailure error
  | AudioProcess "real list"
  | AnimationFrame "real list"

fun exec :: "state \<Rightarrow> action \<Rightarrow> state" where
  "exec s (StartListening thrown) = startListening thrown s"
| "exec s StartRecording = startRecording s"
| "exec s Stop = snd (stop s)"
| "exec s Dispose = snd (dispose s)"
| "exec s (UserMediaSuccess strm) = userMediaSuccess strm s"
| "exec s (UserMediaFailure e) = userMediaFailure e s"
| "exec s (AudioProcess chunk) = onaudioprocess chunk s"
| "exec s (AnimationFrame dataArray) = update dataArray s"

definition run :: "action list \<Rightarrow> state \<Rightarrow> state" where
  "run acts s = foldl exec s acts"

subsection \<open>Well-formed stores, observable calls and recorded sessions\<close>

text \<open>
  A reference held in \<open>buffers\<close> points to an array that has been allocated: JavaScript has
  no dangling references, so every state of a real recorder satisfies this.
\<close>

definition buffers_allocated :: "state \<Rightarrow> bool" where
  "buffers_allocated s = (\<forall>a\<in>set (buffers s). a < next_addr s)"

text \<open>The chunks a state retains, in order.\<close>

definition chunks_of :: "state \<Rightarrow> real list list" where
  "chunks_of s = map (heap s) (buffers s)"

text \<open>
  The calls that the client observes: its three callbacks, and the request for the next
  animation frame, which continues the loudness loop.
\<close>

fun client_call :: "call \<Rightarrow> bool" where
  "client_call OnStarted = True"
| "client_call (OnUpdate v) = True"
| "client_call (OnError e) = True"
| "client_call RequestAnimationFrame = True"
| "client_call c = False"

text \<open>The arrivals of the callbacks the recorder has handed out, as opposed to method calls.\<close>

fun is_callback :: "action \<Rightarrow> bool" where
  "is_callback (UserMediaSuccess strm) = True"
| "is_callback (UserMediaFailure e) = True"
| "is_callback (AudioProcess chunk) = True"
| "is_callback (AnimationFrame dataArray) = True"
| "is_callback a = False"

text \<open>The teardown of \<open>dispose\<close> on a session with all its nodes attached.\<close>

definition teardown :: "state \<Rightarrow> call list" where
  "teardown s =
     [SetOnaudioprocess (the (scriptProcessorNode s)) False,
      Disconnect (the (scriptProcessorNode s)),
      Disconnect (the (analyserNode s)),
      Disconnect (the (sourceNode s)),
      Disconnect (the (mediaStreamSource s)),
      StopTrack (the (userMediaStream s))]"

text \<open>
  Splitting a flat buffer back into \<open>n\<close> consecutive blocks of length \<open>L\<close>, as the
  specification words the round trip.
\<close>

fun split_blocks :: "nat \<Rightarrow> nat \<Rightarrow> 'a list \<Rightarrow> 'a list list" where
  "split_blocks L 0 xs = []"
| "split_blocks L (Suc n) xs = take L xs # split_blocks L n (drop L xs)"

text \<open>
  A session at 44100 Hz that has acquired stream \<open>1\<close> and started recording, and the same
  session after the script processor has delivered the given chunks.
\<close>

definition listening :: state where
  "listening = run [StartListening None, UserMediaSuccess 1, StartRecording] (constructor 44100)"

definition recorded :: "real list list \<Rightarrow> state" where
  "recorded chunks = run (map AudioProcess chunks) listening"

text \<open>
  The capture of the end-to-end scenario: ten chunks of length four, chunks 4 to 6 at
  amplitude 1 and the others silent.
\<close>

definition scenario_chunks :: "real list list" where
  "scenario_chunks =
     replicate 3 [0, 0, 0, 0] @ replicate 3 [1, 1, 1, 1] @ replicate 4 [0, 0, 0, 0]"

section \<open>Properties of the loudness meter\<close>

lemma foldl_squares: "foldl (\<lambda>acc v. acc + v ^ 2) a xs = a + (\<Sum>v\<leftarrow>xs. (v::real) ^ 2)"
  by (induction xs arbitrary: a) simp_all

lemma sum_squares_nonneg: "0 \<le> (\<Sum>v\<leftarrow>xs. (v::real) ^ 2)"
  by (induction xs) simp_all

lemma calculateRMS_nonempty:
  assumes "xs \<noteq> []"
  shows "calculateRMS xs = Fin (rms_closed_form xs)"
proof -
  let ?q = "(\<Sum>v\<leftarrow>xs. v ^ 2) / real (length xs)"
  have n: "real (length xs) \<noteq> 0"
    using assms by simp
  have q: "0 \<le> ?q"
    by (simp add: sum_squares_nonneg)
  have "js_sqrt (js_div (Fin (\<Sum>v\<leftarrow>xs. v ^ 2)) (Fin (real (length xs)))) = Fin (sqrt ?q)"
    using n q by (simp add: not_less)
  moreover have "0 \<le> sqrt ?q / 0.35"
    using q by simp
  ultimately show ?thesis
    by (simp add: calculateRMS_def rms_closed_form_def unity_def foldl_squares Let_def not_less)
qed

lemma calculateRMS_empty: "calculateRMS [] = NaN"
  by (simp add: calculateRMS_def)

lemma sum_squares_uniform:
  assumes "\<forall>x\<in>set xs. \<bar>x\<bar> = (a::real)"
  shows "(\<Sum>v\<leftarrow>xs. v ^ 2) = real (length xs) * a ^ 2"
  using assms
proof (induction xs)
  case Nil
  show ?case by simp
next
  case (Cons x xs)
  have "x ^ 2 = a ^ 2"
    using Cons.prems by (metis list.set_intros(1) power2_abs)
  then show ?case
    using Cons by (simp add: algebra_simps)
qed

lemma calculateRMS_uniform:
  assumes "xs \<noteq> []" "0 \<le> a" "\<forall>x\<in>set xs. \<bar>x\<bar> = a"
  shows "calculateRMS xs = Fin (sqrt (a / 0.35))"
proof -
  have n: "real (length xs) \<noteq> 0"
    using assms by simp
  have "(\<Sum>v\<leftarrow>xs. v ^ 2) = real (length xs) * a ^ 2"
    using assms by (intro sum_squares_uniform) simp
  then have "(\<Sum>v\<leftarrow>xs. v ^ 2) / real (length xs) = a ^ 2"
    using n by simp
  moreover have "sqrt (a ^ 2) = a"
    using assms by simp
  ultimately show ?thesis
    using calculateRMS_nonempty [OF assms(1)] by (simp add: rms_closed_form_def)
qed

text \<open>
  C2, as stated, fails in its clause on uniform amplitude: read as the specification
  writes it, \<open>sqrt (sqrt (a / 0.35))\<close>, the value has one square root too many. At
  amplitude \<open>0.0875\<close>, where \<open>a / 0.35 = 1/4\<close>, \<open>calculateRMS\<close> returns \<open>1/2\<close>, which is
  \<open>sqrt (1/4)\<close> and not \<open>sqrt (sqrt (1/4))\<close>.
\<close>

theorem calculateRMS_uniform_not_double_root:
  "calculateRMS [0.0875, 0.0875] = Fin (1 / 2)
   \<and> calculateRMS [0.0875, 0.0875] \<noteq> Fin (sqrt (sqrt (0.0875 / 0.35)))"
proof -
  have q: "(0.0875 / 0.35 :: real) = (1 / 2) ^ 2"
    by (simp add: power2_eq_square)
  have r: "sqrt (0.0875 / 0.35 :: real) = 1 / 2"
    unfolding q by simp
  have u: "calculateRMS [0.0875, 0.0875] = Fin (sqrt (0.0875 / 0.35))"
    using calculateRMS_uniform [of "[0.0875, 0.0875]" "0.0875"] by simp
  have v: "calculateRMS [0.0875, 0.0875] = Fin (1 / 2)"
    unfolding u r by (rule refl)
  have "sqrt (1 / 2 :: real) \<noteq> sqrt (0.0875 / 0.35)"
    by simp
  then have "sqrt (sqrt (0.0875 / 0.35 :: real)) \<noteq> 1 / 2"
    unfolding r by simp
  then show ?thesis
    unfolding v by simp
qed

text \<open>
  C2, amended. For every non-empty sample sequence \<open>calculateRMS\<close> returns
  \<open>sqrt (sqrt (\<Sum> sample\<^sup>2 / n) / 0.35)\<close>; for a sequence of uniform amplitude \<open>a\<close> (every
  sample is \<open>a\<close> or \<open>-a\<close>, with \<open>0 \<le> a\<close>) that closed form is \<open>sqrt (a / 0.35)\<close>, a single
  square root.
\<close>

theorem calculateRMS_closed_form:
  assumes "xs \<noteq> []"
  shows "calculateRMS xs
           = Fin (sqrt (sqrt ((\<Sum>v\<leftarrow>xs. v ^ 2) / real (length xs)) / 0.35))
         \<and> (\<forall>a. 0 \<le> a \<and> (\<forall>x\<in>set xs. \<bar>x\<bar> = a)
               \<longrightarrow> calculateRMS xs = Fin (sqrt (a / 0.35)))"
proof (intro conjI allI impI)
  show closed: "calculateRMS xs
      = Fin (sqrt (sqrt ((\<Sum>v\<leftarrow>xs. v ^ 2) / real (length xs)) / 0.35))"
    using calculateRMS_nonempty [OF assms] by (simp add: rms_closed_form_def)
  fix a :: real
  assume a: "0 \<le> a \<and> (\<forall>x\<in>set xs. \<bar>x\<bar> = a)"
  have n: "real (length xs) \<noteq> 0"
    using assms by simp
  have "(\<Sum>v\<leftarrow>xs. v ^ 2) = real (length xs) * a ^ 2"
    using a by (intro sum_squares_uniform) simp
  then have "(\<Sum>v\<leftarrow>xs. v ^ 2) / real (length xs) = a ^ 2"
    using n by simp
  moreover have "sqrt (a ^ 2) = a"
    using a by simp
  ultimately show "calculateRMS xs = Fin (sqrt (a / 0.35))"
    using closed by simp
qed

theorem calculateRMS_closed_form_witness:
  "calculateRMS [1, -1, 1, -1] = Fin (sqrt (1 / 0.35))
   \<and> calculateRMS [3, 4] = Fin (sqrt (sqrt (25 / 2) / 0.35))"
proof -
  have "calculateRMS [1, -1, 1, -1] = Fin (sqrt (1 / 0.35))"
    using calculateRMS_closed_form [of "[1, -1, 1, -1]"] by simp
  moreover have "calculateRMS [3, 4] = Fin (sqrt (sqrt (25 / 2) / 0.35))"
    using calculateRMS_closed_form [of "[3, 4]"] by simp
  ultimately show ?thesis by simp
qed

section \<open>The scan for the chunks above the threshold\<close>

lemma scan_loop_step:
  "i < length lv \<Longrightarrow> scan_loop lv thr i f l =
     (if js_gt (lv ! i) thr
      then scan_loop lv thr (Suc i) (if f = None then Some (Suc i) else f) (Some (Suc i))
      else scan_loop lv thr (Suc i) f l)"
  by (subst scan_loop.simps) simp

lemma scan_loop_done: "\<not> i < length lv \<Longrightarrow> scan_loop lv thr i f l = (f, l)"
  by (subst scan_loop.simps) simp

lemma scan_loop_last_none:
  "\<forall>j. i \<le> j \<and> j < length lv \<longrightarrow> \<not> js_gt (lv ! j) thr \<Longrightarrow> scan_loop lv thr i f l = (f, l)"
proof (induction lv thr i f l rule: scan_loop.induct)
  case (1 lv thr i f l)
  show ?case
  proof (cases "i < length lv")
    case True
    then have "\<not> js_gt (lv ! i) thr"
      using "1.prems" by simp
    moreover have "scan_loop lv thr (i + 1) f l = (f, l)"
      using True calculation "1.prems" by (intro "1.IH"(2)) simp_all
    ultimately show ?thesis
      using True by (simp add: scan_loop_step)
  next
    case False
    then show ?thesis by (simp add: scan_loop_done)
  qed
qed

lemma scan_loop_first_set:
  "fst (scan_loop lv thr i (Some m) l) = Some m"
proof (induction lv thr i "Some m :: nat option" l rule: scan_loop.induct)
  case (1 lv thr i l)
  then show ?case
    by (cases "i < length lv") (simp_all add: scan_loop_step scan_loop_done)
qed

lemma scan_loop_last:
  assumes "i \<le> j" "j < length lv" "js_gt (lv ! j) thr"
  shows "\<exists>k. snd (scan_loop lv thr i f l) = Some (Suc k) \<and> i \<le> k \<and> k < length lv
            \<and> js_gt (lv ! k) thr \<and> (\<forall>j'. k < j' \<and> j' < length lv \<longrightarrow> \<not> js_gt (lv ! j') thr)"
  using assms
proof (induction lv thr i f l arbitrary: j rule: scan_loop.induct)
  case (1 lv thr i f l)
  have i: "i < length lv"
    using "1.prems" by simp
  show ?case
  proof (cases "\<exists>j'. Suc i \<le> j' \<and> j' < length lv \<and> js_gt (lv ! j') thr")
    case True
    then obtain j' where j': "i + 1 \<le> j'" "j' < length lv" "js_gt (lv ! j') thr"
      by auto
    show ?thesis
    proof (cases "js_gt (lv ! i) thr")
      case True
      from "1.IH"(1) [OF i True j']
      show ?thesis using i True by (fastforce simp: scan_loop_step)
    next
      case False
      from "1.IH"(2) [OF i False j']
      show ?thesis using i False by (auto simp: scan_loop_step)
    qed
  next
    case False
    then have none: "\<forall>j'. Suc i \<le> j' \<and> j' < length lv \<longrightarrow> \<not> js_gt (lv ! j') thr"
      by blast
    have ji: "j = i"
      using False "1.prems" by (metis Suc_leI le_neq_implies_less)
    then have gt: "js_gt (lv ! i) thr"
      using "1.prems" by simp
    have "scan_loop lv thr i f l = (if f = None then Some (Suc i) else f, Some (Suc i))"
      using i gt none by (simp add: scan_loop_step scan_loop_last_none)
    then show ?thesis
      using i gt none by (auto simp: Suc_le_eq)
  qed
qed

lemma scan_loop_first:
  assumes "i \<le> j" "j < length lv" "js_gt (lv ! j) thr"
  shows "\<exists>k. fst (scan_loop lv thr i None l) = Some (Suc k) \<and> i \<le> k \<and> k < length lv
            \<and> js_gt (lv ! k) thr \<and> (\<forall>j'. i \<le> j' \<and> j' < k \<longrightarrow> \<not> js_gt (lv ! j') thr)"
  using assms
proof (induction "j - i" arbitrary: i l)
  case 0
  then have ji: "j = i" by simp
  then have "fst (scan_loop lv thr i None l) = Some (Suc i)"
    using 0 by (simp add: scan_loop_step scan_loop_first_set)
  then show ?case
    using 0 ji by auto
next
  case (Suc d)
  then have i: "i < length lv" by simp
  show ?case
  proof (cases "js_gt (lv ! i) thr")
    case True
    then have "fst (scan_loop lv thr i None l) = Some (Suc i)"
      using i by (simp add: scan_loop_step scan_loop_first_set)
    then show ?thesis
      using i True by auto
  next
    case False
    have "d = j - Suc i" "Suc i \<le> j"
      using Suc.hyps(2) by simp_all
    from Suc.hyps(1) [OF this(1) this(2) Suc.prems(2,3), of l]
    obtain k where k: "fst (scan_loop lv thr (Suc i) None l) = Some (Suc k)" "Suc i \<le> k"
        "k < length lv" "js_gt (lv ! k) thr"
        "\<forall>j'. Suc i \<le> j' \<and> j' < k \<longrightarrow> \<not> js_gt (lv ! j') thr"
      by blast
    have "\<forall>j'. i \<le> j' \<and> j' < k \<longrightarrow> \<not> js_gt (lv ! j') thr"
      using k(5) False by (metis Suc_leI le_neq_implies_less)
    then show ?thesis
      using k i False by (auto simp: scan_loop_step)
  qed
qed

section \<open>The copy of the chunks\<close>

lemma copy_loop_step:
  "i < length bufs \<Longrightarrow> copy_loop bufs buffer i offset h =
     (case typed_array_set buffer (h (bufs ! i)) offset h of
        Inl e \<Rightarrow> Inl e
      | Inr h' \<Rightarrow> copy_loop bufs buffer (i + 1) (offset + length (h' (bufs ! i))) h')"
  by (subst copy_loop.simps) (simp add: Let_def)

lemma copy_loop_done: "\<not> i < length bufs \<Longrightarrow> copy_loop bufs buffer i offset h = Inr h"
  by (subst copy_loop.simps) simp

lemma typed_array_set_frame:
  "typed_array_set target source offset h = Inr h' \<Longrightarrow>
     (\<forall>a. a \<noteq> target \<longrightarrow> h' a = h a) \<and> length (h' target) = length (h target)"
  by (auto simp: typed_array_set_def split: if_splits)

lemma copy_loop_frame:
  "copy_loop bufs buffer i offset h = Inr h' \<Longrightarrow>
     (\<forall>a. a \<noteq> buffer \<longrightarrow> h' a = h a) \<and> length (h' buffer) = length (h buffer)"
proof (induction bufs buffer i offset h rule: copy_loop.induct)
  case (1 bufs buffer i offset h)
  show ?case
  proof (cases "i < length bufs")
    case True
    show ?thesis
    proof (cases "typed_array_set buffer (h (bufs ! i)) offset h")
      case (Inl e)
      then show ?thesis
        using "1.prems" True by (simp add: copy_loop_step)
    next
      case (Inr h1)
      then have "copy_loop bufs buffer (i + 1) (offset + length (h1 (bufs ! i))) h1 = Inr h'"
        using "1.prems" True by (simp add: copy_loop_step)
      from "1.IH" [OF True refl Inr this] typed_array_set_frame [OF Inr]
      show ?thesis by simp
    qed
  next
    case False
    then show ?thesis
      using "1.prems" by (simp add: copy_loop_done)
  qed
qed

lemma copy_loop_concat:
  assumes "buffer \<notin> set bufs"
    and "offset + length (concat (map h (drop i bufs))) \<le> length (h buffer)"
  shows "\<exists>h'. copy_loop bufs buffer i offset h = Inr h'
           \<and> h' buffer = take offset (h buffer) @ concat (map h (drop i bufs))
                 @ drop (offset + length (concat (map h (drop i bufs)))) (h buffer)"
  using assms
proof (induction bufs buffer i offset h rule: copy_loop.induct)
  case (1 bufs buffer i offset h)
  show ?case
  proof (cases "i < length bufs")
    case True
    let ?c = "bufs ! i"
    let ?rest = "concat (map h (drop (Suc i) bufs))"
    have dr: "drop i bufs = ?c # drop (Suc i) bufs"
      using True by (simp add: Cons_nth_drop_Suc)
    have c: "?c \<noteq> buffer"
      using True "1.prems"(1) by (metis nth_mem)
    have fits: "offset + length (h ?c) + length ?rest \<le> length (h buffer)"
      using "1.prems"(2) by (simp add: dr)
    define h1 where "h1 = h(buffer := take offset (h buffer) @ h ?c
                                 @ drop (offset + length (h ?c)) (h buffer))"
    have set1: "typed_array_set buffer (h ?c) offset h = Inr h1"
      using fits by (simp add: typed_array_set_def h1_def)
    have h1c: "h1 ?c = h ?c"
      using c by (simp add: h1_def)
    have same: "map h1 (drop (Suc i) bufs) = map h (drop (Suc i) bufs)"
      using "1.prems"(1) by (auto simp: h1_def dest: in_set_dropD)
    have len1: "length (h1 buffer) = length (h buffer)"
      using fits by (simp add: h1_def)
    have "offset + length (h1 ?c) + length (concat (map h1 (drop (i + 1) bufs))) \<le> length (h1 buffer)"
      using fits by (simp add: h1c same len1)
    from "1.IH" [OF True refl set1 "1.prems"(1) this]
    obtain h' where h': "copy_loop bufs buffer (Suc i) (offset + length (h ?c)) h1 = Inr h'"
      "h' buffer = take (offset + length (h ?c)) (h1 buffer) @ ?rest
         @ drop (offset + length (h ?c) + length ?rest) (h1 buffer)"
      by (auto simp: h1c same)
    have tk: "take (offset + length (h ?c)) (h1 buffer) = take offset (h buffer) @ h ?c"
      using fits by (simp add: h1_def)
    have dp: "drop (offset + length (h ?c) + length ?rest) (h1 buffer)
                = drop (offset + length (h ?c) + length ?rest) (h buffer)"
      using fits by (simp add: h1_def ac_simps)
    have "copy_loop bufs buffer i offset h = Inr h'"
      using True set1 h'(1) by (simp add: copy_loop_step h1c)
    moreover have "h' buffer = take offset (h buffer) @ concat (map h (drop i bufs))
         @ drop (offset + length (concat (map h (drop i bufs)))) (h buffer)"
      using dp by (simp add: h'(2) tk dr add.assoc)
    ultimately show ?thesis by blast
  next
    case False
    then show ?thesis
      by (simp add: copy_loop_done)
  qed
qed

section \<open>What stop returns and what it leaves alone\<close>

lemma stop_state:
  "snd (stop s) = s\<lparr>heap := heap (snd (stop s)), next_addr := Suc (next_addr s)\<rparr>"
  by (simp add: stop_def new_Float32Array_def Let_def split: prod.split sum.split)

lemma stop_heap_frame:
  assumes "a \<noteq> next_addr s"
  shows "heap (snd (stop s)) a = heap s a"
proof -
  let ?h0 = "(heap s)(next_addr s := replicate (length (buffers s) * bufferLength s) 0)"
  show ?thesis
  proof (cases "copy_loop (buffers s) (next_addr s) 0 0 ?h0")
    case (Inl e)
    then show ?thesis
      using assms by (simp add: stop_def new_Float32Array_def Let_def split: prod.split)
  next
    case (Inr h)
    then have "h a = ?h0 a"
      using copy_loop_frame assms by blast
    then show ?thesis
      using Inr assms by (simp add: stop_def new_Float32Array_def Let_def split: prod.split)
  qed
qed

lemma stop_result:
  assumes "fst (stop s) = Inr r"
  shows "levels r = chunkLevels_of s \<and> samples r = next_addr s
       \<and> sampleRate r = ctx_sampleRate s
       \<and> trimStart r = js_div (Fin (real_of_int (max 2 (to_number (fst (aboveThreshold s)) - 2))))
                          (Fin (real (length (buffers s))))
       \<and> trimEnd r = js_div (Fin (real_of_int (min (int (length (buffers s)) - 2)
                                                  (to_number (snd (aboveThreshold s)) + 2))))
                        (Fin (real (length (buffers s))))"
  using assms
  by (auto simp: stop_def new_Float32Array_def Let_def chunkLevels_of_def aboveThreshold_def
      threshold_of_def split: prod.splits sum.splits)

lemma stop_returns:
  assumes "buffers_allocated s"
    and "length (concat (chunks_of s)) \<le> length (buffers s) * bufferLength s"
  shows "\<exists>r. fst (stop s) = Inr r
           \<and> heap (snd (stop s)) (samples r)
               = concat (chunks_of s)
                 @ replicate (length (buffers s) * bufferLength s - length (concat (chunks_of s))) 0"
proof -
  let ?b = "next_addr s"
  let ?N = "length (buffers s) * bufferLength s"
  let ?h0 = "(heap s)(?b := replicate ?N 0)"
  have nb: "?b \<notin> set (buffers s)"
    using assms(1) by (auto simp: buffers_allocated_def)
  then have same: "map ?h0 (buffers s) = map (heap s) (buffers s)"
    by auto
  have "0 + length (concat (map ?h0 (drop 0 (buffers s)))) \<le> length (?h0 ?b)"
    using assms(2) by (simp add: same chunks_of_def)
  from copy_loop_concat [OF nb this]
  obtain h where h: "copy_loop (buffers s) ?b 0 0 ?h0 = Inr h"
    "h ?b = concat (map (heap s) (buffers s))
       @ drop (length (concat (map (heap s) (buffers s)))) (replicate ?N 0)"
    by (auto simp: same)
  show ?thesis
    using h by (simp add: stop_def new_Float32Array_def Let_def chunks_of_def split: prod.split)
qed

lemma split_blocks_concat:
  "\<forall>c\<in>set cs. length c = L \<Longrightarrow> split_blocks L (length cs) (concat cs) = cs"
  by (induction cs) simp_all

lemma length_concat_uniform:
  "\<forall>c\<in>set cs. length c = L \<Longrightarrow> length (concat cs) = length cs * L"
  by (induction cs) simp_all

lemma length_concat_bounded:
  "\<forall>c\<in>set cs. length c \<le> L \<Longrightarrow> length (concat cs) \<le> length cs * L"
  by (induction cs) (simp_all add: add_mono)

section \<open>Recorded sessions\<close>

lemma chunkLevels_of_chunks: "chunkLevels_of s = map calculateRMS (chunks_of s)"
  by (simp add: chunkLevels_of_def chunks_of_def)

lemma run_Nil: "run [] s = s"
  by (simp add: run_def)

lemma run_Cons: "run (a # acts) s = run acts (exec s a)"
  by (simp add: run_def)

lemma onaudioprocess_recording:
  assumes "recording s" "\<not> disposed s" "buffers_allocated s"
  shows "chunks_of (onaudioprocess c s) = chunks_of s @ [c]
       \<and> buffers_allocated (onaudioprocess c s)
       \<and> recording (onaudioprocess c s) \<and> \<not> disposed (onaudioprocess c s)
       \<and> bufferLength (onaudioprocess c s) = bufferLength s"
  using assms
  by (auto simp: onaudioprocess_def new_Float32Array_def chunks_of_def buffers_allocated_def)

lemma run_audio_chunks:
  assumes "recording s" "\<not> disposed s" "buffers_allocated s"
  shows "chunks_of (run (map AudioProcess cs) s) = chunks_of s @ cs
       \<and> buffers_allocated (run (map AudioProcess cs) s)
       \<and> bufferLength (run (map AudioProcess cs) s) = bufferLength s"
  using assms
proof (induction cs arbitrary: s)
  case Nil
  then show ?case by (simp add: run_Nil)
next
  case (Cons c cs)
  from onaudioprocess_recording [OF Cons.prems, of c] Cons.IH [of "onaudioprocess c s"]
  show ?case
    by (simp add: run_Cons)
qed

lemma listening_state:
  "recording listening \<and> \<not> disposed listening \<and> buffers listening = []
   \<and> bufferLength listening = 1024 \<and> started listening"
  by (simp add: listening_def run_def constructor_def startListening_def emit_def
      userMediaSuccess_def attachUserMediaStream_def create_node_def startRecording_def Let_def)

lemma recorded_state:
  "chunks_of (recorded cs) = cs \<and> buffers_allocated (recorded cs)
   \<and> bufferLength (recorded cs) = 1024 \<and> length (buffers (recorded cs)) = length cs"
proof -
  have a: "buffers_allocated listening" "chunks_of listening = []"
    using listening_state by (simp_all add: buffers_allocated_def chunks_of_def)
  from run_audio_chunks [of listening cs] listening_state a
  have r: "chunks_of (recorded cs) = cs" "buffers_allocated (recorded cs)"
    "bufferLength (recorded cs) = 1024"
    by (simp_all add: recorded_def)
  have "length (chunks_of (recorded cs)) = length (buffers (recorded cs))"
    by (simp add: chunks_of_def)
  with r show ?thesis by simp
qed

lemma stop_trim_values:
  assumes "aboveThreshold s = (Some f, Some l)" "buffers s \<noteq> []" "fst (stop s) = Inr r"
  shows "trimStart r = Fin (real_of_int (max 2 (int f - 2)) / real (length (buffers s)))
       \<and> trimEnd r = Fin (real_of_int (min (int (length (buffers s)) - 2) (int l + 2))
                           / real (length (buffers s)))"
  using stop_result [OF assms(3)] assms(1,2) by (simp add: to_number_def)

lemma stop_returns_bounded:
  assumes "buffers_allocated s" "\<forall>a\<in>set (buffers s). length (heap s a) \<le> bufferLength s"
  shows "\<exists>r. fst (stop s) = Inr r"
proof -
  have "length (concat (chunks_of s)) \<le> length (chunks_of s) * bufferLength s"
    using assms(2) by (intro length_concat_bounded) (simp add: chunks_of_def)
  then show ?thesis
    using stop_returns [OF assms(1)] by (auto simp: chunks_of_def)
qed

lemma Math_max_Cons_Fin:
  "foldl js_max2 (Fin a) (Fin b # xs) = foldl js_max2 (Fin (max a b)) xs"
  by (simp add: max_def)

lemma Math_max_first: "Math_max (Fin a # xs) = foldl js_max2 (Fin a) xs"
  by (simp add: Math_max_def)

lemma level_pos: "0 < sqrt (1 / 0.35 :: real)"
  by simp

lemma silent_level: "calculateRMS [0, 0, 0, 0] = Fin 0"
  using calculateRMS_uniform [of "[0, 0, 0, 0]" 0] by simp

lemma loud_level: "calculateRMS [1, 1, 1, 1] = Fin (sqrt (1 / 0.35))"
  using calculateRMS_uniform [of "[1, 1, 1, 1]" 1] by simp

lemma recorded_stop:
  assumes "\<forall>c\<in>set cs. length c \<le> 1024"
  shows "\<exists>r. fst (stop (recorded cs)) = Inr r
           \<and> heap (snd (stop (recorded cs))) (samples r)
               = concat cs @ replicate (length cs * 1024 - length (concat cs)) 0"
proof -
  have "length (concat cs) \<le> length cs * 1024"
    using assms by (rule length_concat_bounded)
  then show ?thesis
    using stop_returns [of "recorded cs"] by (simp add: recorded_state)
qed

section \<open>The trim points\<close>

text \<open>
  C1. For a non-empty sequence of chunks in which some chunk's level exceeds
  \<open>threshold = maxRMS / 8\<close>, the scan of \<open>stop\<close> leaves in \<open>firstChunkAboveThreshold\<close>
  the 1-based index of the first such chunk and in \<open>lastChunkAboveThreshold\<close> that of the
  last one, and the object \<open>stop\<close> returns has
  \<open>trimStart = max(2, first - 2) / totalChunks\<close> and
  \<open>trimEnd = min(totalChunks - 2, last + 2) / totalChunks\<close>. The call does return when no
  chunk is longer than \<open>bufferLength\<close> (otherwise the copy into the result may throw a
  \<open>RangeError\<close> after the trim points have been computed).
\<close>

theorem stop_trims_around_chunks_above_threshold:
  assumes "buffers s \<noteq> []"
    and "j < length (buffers s)"
    and "js_gt (chunkLevels_of s ! j) (threshold_of s)"
  shows "\<exists>f l. aboveThreshold s = (Some (Suc f), Some (Suc l))
          \<and> f < length (buffers s) \<and> js_gt (chunkLevels_of s ! f) (threshold_of s)
          \<and> (\<forall>i. i < f \<longrightarrow> \<not> js_gt (chunkLevels_of s ! i) (threshold_of s))
          \<and> l < length (buffers s) \<and> js_gt (chunkLevels_of s ! l) (threshold_of s)
          \<and> (\<forall>i. l < i \<and> i < length (buffers s) \<longrightarrow> \<not> js_gt (chunkLevels_of s ! i) (threshold_of s))
          \<and> (\<forall>r. fst (stop s) = Inr r \<longrightarrow>
                trimStart r = Fin (real_of_int (max 2 (int (Suc f) - 2)) / real (length (buffers s)))
              \<and> trimEnd r = Fin (real_of_int (min (int (length (buffers s)) - 2) (int (Suc l) + 2))
                                  / real (length (buffers s))))
          \<and> (buffers_allocated s \<and> (\<forall>a\<in>set (buffers s). length (heap s a) \<le> bufferLength s)
               \<longrightarrow> (\<exists>r. fst (stop s) = Inr r))"
proof -
  let ?lv = "chunkLevels_of s" and ?thr = "threshold_of s"
  have len: "length ?lv = length (buffers s)"
    by (simp add: chunkLevels_of_def)
  have j: "0 \<le> j" "j < length ?lv" "js_gt (?lv ! j) ?thr"
    using assms len by simp_all
  from scan_loop_first [OF j, of None]
  obtain f where f: "fst (aboveThreshold s) = Some (Suc f)" "f < length ?lv" "js_gt (?lv ! f) ?thr"
      "\<forall>i. i < f \<longrightarrow> \<not> js_gt (?lv ! i) ?thr"
    by (auto simp: aboveThreshold_def)
  from scan_loop_last [OF j, of None None]
  obtain l where l: "snd (aboveThreshold s) = Some (Suc l)" "l < length ?lv" "js_gt (?lv ! l) ?thr"
      "\<forall>i. l < i \<and> i < length ?lv \<longrightarrow> \<not> js_gt (?lv ! i) ?thr"
    by (auto simp: aboveThreshold_def)
  have ab: "aboveThreshold s = (Some (Suc f), Some (Suc l))"
    using f(1) l(1) by (simp add: prod_eq_iff)
  have trims: "\<forall>r. fst (stop s) = Inr r \<longrightarrow>
                trimStart r = Fin (real_of_int (max 2 (int (Suc f) - 2)) / real (length (buffers s)))
              \<and> trimEnd r = Fin (real_of_int (min (int (length (buffers s)) - 2) (int (Suc l) + 2))
                                  / real (length (buffers s)))"
    using stop_trim_values [OF ab assms(1)] by blast
  have ret: "buffers_allocated s \<and> (\<forall>a\<in>set (buffers s). length (heap s a) \<le> bufferLength s)
               \<longrightarrow> (\<exists>r. fst (stop s) = Inr r)"
    using stop_returns_bounded by blast
  show ?thesis
    using ab f(2-4) l(2-4) trims ret unfolding len by blast
qed

theorem stop_trims_around_chunks_above_threshold_witness:
  "aboveThreshold (recorded [[0], [1], [0], [0], [0]]) = (Some 2, Some 2)
   \<and> (\<exists>r. fst (stop (recorded [[0], [1], [0], [0], [0]])) = Inr r
          \<and> trimStart r = Fin (2 / 5) \<and> trimEnd r = Fin (3 / 5))"
proof -
  let ?s = "recorded [[0], [1], [0], [0], [0]]"
  let ?L = "sqrt (1 / 0.35 :: real)"
  have rs: "chunks_of ?s = [[0], [1], [0], [0], [0]]" "buffers_allocated ?s"
    "bufferLength ?s = 1024" "length (buffers ?s) = 5"
    using recorded_state [of "[[0], [1], [0], [0], [0]]"] by simp_all
  have l0: "calculateRMS [0] = Fin 0"
    using calculateRMS_uniform [of "[0]" 0] by simp
  have l1: "calculateRMS [1] = Fin ?L"
    using calculateRMS_uniform [of "[1]" 1] by simp
  have lv: "chunkLevels_of ?s = [Fin 0, Fin ?L, Fin 0, Fin 0, Fin 0]"
    by (simp add: chunkLevels_of_chunks rs l0 l1)
  have thr: "threshold_of ?s = Fin (?L / 8)"
    using level_pos by (simp add: threshold_of_def lv Math_max_first Math_max_Cons_Fin max_def)
  have above: "js_gt (chunkLevels_of ?s ! i) (threshold_of ?s) \<longleftrightarrow> i = 1" if "i < 5" for i
  proof -
    from that have "i = 0 \<or> i = 1 \<or> i = 2 \<or> i = 3 \<or> i = 4"
      by arith
    then show ?thesis
      using level_pos by (auto simp: lv thr)
  qed
  have h1: "buffers ?s \<noteq> []"
    using rs(4) by auto
  have h2: "1 < length (buffers ?s)"
    by (simp add: rs)
  have h3: "js_gt (chunkLevels_of ?s ! 1) (threshold_of ?s)"
    using above [of 1] by simp
  have fits: "\<forall>a\<in>set (buffers ?s). length (heap ?s a) \<le> bufferLength ?s"
  proof
    fix a assume "a \<in> set (buffers ?s)"
    then have "heap ?s a \<in> set (chunks_of ?s)"
      by (simp add: chunks_of_def)
    then show "length (heap ?s a) \<le> bufferLength ?s"
      by (auto simp: rs)
  qed
  from stop_trims_around_chunks_above_threshold [OF h1 h2 h3]
  obtain f l where fl: "aboveThreshold ?s = (Some (Suc f), Some (Suc l))"
      "f < 5" "js_gt (chunkLevels_of ?s ! f) (threshold_of ?s)"
      "l < 5" "js_gt (chunkLevels_of ?s ! l) (threshold_of ?s)"
      "\<forall>r. fst (stop ?s) = Inr r \<longrightarrow>
         trimStart r = Fin (real_of_int (max 2 (int (Suc f) - 2)) / real (length (buffers ?s)))
       \<and> trimEnd r = Fin (real_of_int (min (int (length (buffers ?s)) - 2) (int (Suc l) + 2))
                           / real (length (buffers ?s)))"
      "buffers_allocated ?s \<and> (\<forall>a\<in>set (buffers ?s). length (heap ?s a) \<le> bufferLength ?s)
         \<longrightarrow> (\<exists>r. fst (stop ?s) = Inr r)"
    unfolding rs(4) by blast
  have f: "f = 1" and l: "l = 1"
    using fl(2,3) above [of f] fl(4,5) above [of l] by simp_all
  obtain r where r: "fst (stop ?s) = Inr r"
    using fl(7) rs(2) fits by blast
  have "trimStart r = Fin (2 / 5) \<and> trimEnd r = Fin (3 / 5)"
    using fl(6) r by (simp add: f l rs)
  then show ?thesis
    using fl(1) r by (auto simp: f l)
qed

section \<open>The end-to-end scenario\<close>

lemma scenario_levels:
  "chunkLevels_of (recorded scenario_chunks)
     = [Fin 0, Fin 0, Fin 0, Fin (sqrt (1 / 0.35)), Fin (sqrt (1 / 0.35)), Fin (sqrt (1 / 0.35)),
        Fin 0, Fin 0, Fin 0, Fin 0]"
  by (simp add: chunkLevels_of_chunks recorded_state scenario_chunks_def silent_level loud_level
      eval_nat_numeral)

lemma scenario_threshold:
  "threshold_of (recorded scenario_chunks) = Fin (sqrt (1 / 0.35) / 8)"
  using level_pos
  by (simp add: threshold_of_def scenario_levels Math_max_first Math_max_Cons_Fin max_def)

lemma scenario_scan: "aboveThreshold (recorded scenario_chunks) = (Some 4, Some 6)"
  using level_pos
  by (simp add: aboveThreshold_def scenario_levels scenario_threshold scan_loop_step
      scan_loop_done)

text \<open>
  C4. For ten chunks of length four of which chunks 4 to 6 are at amplitude 1 and the others
  silent, the scan of \<open>stop\<close> ends with \<open>firstChunkAboveThreshold = 4\<close> and
  \<open>lastChunkAboveThreshold = 6\<close>, and \<open>stop\<close> returns \<open>trimStart = max(2, 4 - 2) / 10 = 0.2\<close>
  and \<open>trimEnd = min(10 - 2, 6 + 2) / 10 = 0.8\<close>.
\<close>

theorem end_to_end_scenario:
  "aboveThreshold (recorded scenario_chunks) = (Some 4, Some 6)
   \<and> (\<exists>r. fst (stop (recorded scenario_chunks)) = Inr r
          \<and> trimStart r = Fin 0.2 \<and> trimEnd r = Fin 0.8)"
proof -
  let ?s = "recorded scenario_chunks"
  have n: "length (buffers ?s) = 10" "buffers ?s \<noteq> []"
    using recorded_state [of scenario_chunks] by (auto simp: scenario_chunks_def)
  have "\<forall>a\<in>set (buffers ?s). length (heap ?s a) \<le> bufferLength ?s"
  proof
    fix a assume "a \<in> set (buffers ?s)"
    then have "heap ?s a \<in> set (chunks_of ?s)"
      by (simp add: chunks_of_def)
    then show "length (heap ?s a) \<le> bufferLength ?s"
      by (auto simp: recorded_state scenario_chunks_def)
  qed
  then obtain r where r: "fst (stop ?s) = Inr r"
    using stop_returns_bounded [of ?s] recorded_state [of scenario_chunks] by blast
  from stop_trim_values [OF scenario_scan n(2) r]
  have "trimStart r = Fin 0.2 \<and> trimEnd r = Fin 0.8"
    by (simp add: n(1))
  then show ?thesis
    using scenario_scan r by blast
qed

section \<open>Short and silent captures\<close>

text \<open>
  C8. \<open>trimStart \<le> trimEnd\<close> is not an invariant of \<open>stop\<close>. For a capture of a single
  chunk \<open>stop\<close> returns \<open>trimStart = max(2, 1 - 2) / 1 = 2\<close> and
  \<open>trimEnd = min(1 - 2, 1 + 2) / 1 = -1\<close>. For a silent capture of three chunks no level
  exceeds the threshold \<open>0\<close>, both loop variables stay \<open>null\<close>, and \<open>stop\<close> returns
  \<open>trimStart = max(2, 0 - 2) / 3 = 2/3\<close> and \<open>trimEnd = min(3 - 2, 0 + 2) / 3 = 1/3\<close>.
\<close>

theorem trim_interval_can_be_inverted:
  "buffers (recorded [[1]]) \<noteq> []
   \<and> (\<exists>r. fst (stop (recorded [[1]])) = Inr r
          \<and> trimStart r = Fin 2 \<and> trimEnd r = Fin (- 1) \<and> js_gt (trimStart r) (trimEnd r))
   \<and> buffers (recorded [[0], [0], [0]]) \<noteq> []
   \<and> aboveThreshold (recorded [[0], [0], [0]]) = (None, None)
   \<and> (\<exists>r. fst (stop (recorded [[0], [0], [0]])) = Inr r
          \<and> trimStart r = Fin (2 / 3) \<and> trimEnd r = Fin (1 / 3)
          \<and> js_gt (trimStart r) (trimEnd r))"
proof -
  let ?a = "recorded [[1]]" and ?b = "recorded [[0], [0], [0]]"
  let ?L = "sqrt (1 / 0.35 :: real)"
  have na: "length (buffers ?a) = 1" and nb: "length (buffers ?b) = 3"
    using recorded_state [of "[[1]]"] recorded_state [of "[[0], [0], [0]]"] by simp_all
  have nea: "buffers ?a \<noteq> []" and neb: "buffers ?b \<noteq> []"
    using na nb by auto
  have l0: "calculateRMS [0] = Fin 0"
    using calculateRMS_uniform [of "[0]" 0] by simp
  have l1: "calculateRMS [1] = Fin ?L"
    using calculateRMS_uniform [of "[1]" 1] by simp
  have sa: "aboveThreshold ?a = (Some 1, Some 1)"
    using level_pos
    by (simp add: aboveThreshold_def threshold_of_def chunkLevels_of_chunks recorded_state l1
        Math_max_first scan_loop_step scan_loop_done)
  have sb: "aboveThreshold ?b = (None, None)"
    by (simp add: aboveThreshold_def threshold_of_def chunkLevels_of_chunks recorded_state l0
        Math_max_first Math_max_Cons_Fin scan_loop_step scan_loop_done)
  obtain ra where ra: "fst (stop ?a) = Inr ra"
    using recorded_stop [of "[[1]]"] by auto
  obtain rb where rb: "fst (stop ?b) = Inr rb"
    using recorded_stop [of "[[0], [0], [0]]"] by auto
  have ta: "trimStart ra = Fin 2 \<and> trimEnd ra = Fin (- 1)"
    using stop_trim_values [OF sa nea ra] by (simp add: na)
  have tb: "trimStart rb = Fin (2 / 3) \<and> trimEnd rb = Fin (1 / 3)"
    using stop_result [OF rb] by (simp add: sb nb to_number_def)
  have "js_gt (trimStart ra) (trimEnd ra)" "js_gt (trimStart rb) (trimEnd rb)"
    by (simp_all add: ta tb)
  then show ?thesis
    using nea neb sb ra rb ta tb by blast
qed

section \<open>The concatenated samples\<close>

text \<open>
  C3. The chunks of a session all have the fixed length \<open>L\<close> that its script processor
  delivers, which is the \<open>bufferLength\<close> the processor is created with. For every such
  sequence of chunks \<open>stop\<close> returns, the samples buffer has length \<open>totalChunks * L\<close> and
  is the concatenation of the chunks in order, and splitting it back into consecutive
  blocks of length \<open>L\<close> reproduces the chunk sequence.
\<close>

theorem stop_samples_round_trip:
  assumes "buffers_allocated s"
    and "\<forall>c\<in>set (chunks_of s). length c = bufferLength s"
  shows "\<exists>r. fst (stop s) = Inr r
           \<and> length (heap (snd (stop s)) (samples r)) = length (buffers s) * bufferLength s
           \<and> heap (snd (stop s)) (samples r) = concat (chunks_of s)
           \<and> split_blocks (bufferLength s) (length (buffers s)) (heap (snd (stop s)) (samples r))
               = chunks_of s"
proof -
  have n: "length (chunks_of s) = length (buffers s)"
    by (simp add: chunks_of_def)
  have len: "length (concat (chunks_of s)) = length (buffers s) * bufferLength s"
    using length_concat_uniform [OF assms(2)] by (simp add: n)
  then obtain r where r: "fst (stop s) = Inr r"
    "heap (snd (stop s)) (samples r) = concat (chunks_of s)"
    using stop_returns [OF assms(1)] by auto
  have "split_blocks (bufferLength s) (length (buffers s)) (concat (chunks_of s)) = chunks_of s"
    using split_blocks_concat [OF assms(2)] by (simp add: n)
  then show ?thesis
    using r len by simp
qed

theorem stop_samples_round_trip_witness:
  "\<exists>r. fst (stop (recorded [replicate 1024 1, replicate 1024 0])) = Inr r
      \<and> length (heap (snd (stop (recorded [replicate 1024 1, replicate 1024 0]))) (samples r))
          = 2048
      \<and> split_blocks 1024 2
           (heap (snd (stop (recorded [replicate 1024 1, replicate 1024 0]))) (samples r))
          = [replicate 1024 1, replicate 1024 0]"
proof -
  let ?cs = "[replicate 1024 1, replicate 1024 (0::real)]"
  have rs: "chunks_of (recorded ?cs) = ?cs" "buffers_allocated (recorded ?cs)"
    "bufferLength (recorded ?cs) = 1024" "length (buffers (recorded ?cs)) = 2"
    using recorded_state [of ?cs] by simp_all
  have "\<forall>c\<in>set (chunks_of (recorded ?cs)). length c = bufferLength (recorded ?cs)"
    by (simp add: rs)
  from stop_samples_round_trip [OF rs(2) this]
  have "\<exists>r. fst (stop (recorded ?cs)) = Inr r
      \<and> length (heap (snd (stop (recorded ?cs))) (samples r)) = 2048
      \<and> heap (snd (stop (recorded ?cs))) (samples r) = replicate 1024 1 @ replicate 1024 0
      \<and> split_blocks 1024 2 (heap (snd (stop (recorded ?cs))) (samples r)) = ?cs"
    by (simp add: rs)
  then show ?thesis
    by blast
qed

section \<open>stop as an observer\<close>

text \<open>
  C10. \<open>stop\<close> is read-only on the session: whether it returns or throws, every field of
  the recorder (\<open>buffers\<close>, \<open>recording\<close>, \<open>started\<close>, \<open>disposed\<close>, \<open>recordedSamples\<close>,
  \<open>bufferLength\<close> and the attached nodes) is as before, no call is made to the audio graph
  (the device stays attached), every array allocated before the call keeps its contents
  (so the retained chunks are unchanged), and the \<open>samples\<close> of the returned object is an
  array allocated by this call, which no entry of \<open>buffers\<close> refers to.
\<close>

theorem stop_changes_no_field:
  "snd (stop s) = s\<lparr>heap := heap (snd (stop s)), next_addr := Suc (next_addr s)\<rparr>
   \<and> buffers (snd (stop s)) = buffers s
   \<and> recording (snd (stop s)) = recording s
   \<and> started (snd (stop s)) = started s
   \<and> disposed (snd (stop s)) = disposed s
   \<and> recordedSamples (snd (stop s)) = recordedSamples s
   \<and> bufferLength (snd (stop s)) = bufferLength s
   \<and> userMediaStream (snd (stop s)) = userMediaStream s
   \<and> mediaStreamSource (snd (stop s)) = mediaStreamSource s
   \<and> sourceNode (snd (stop s)) = sourceNode s
   \<and> scriptProcessorNode (snd (stop s)) = scriptProcessorNode s
   \<and> analyserNode (snd (stop s)) = analyserNode s
   \<and> trace (snd (stop s)) = trace s
   \<and> (\<forall>a. a < next_addr s \<longrightarrow> heap (snd (stop s)) a = heap s a)
   \<and> (buffers_allocated s \<longrightarrow> chunks_of (snd (stop s)) = chunks_of s)
   \<and> (\<forall>r. fst (stop s) = Inr r \<longrightarrow>
         samples r = next_addr s \<and> (buffers_allocated s \<longrightarrow> samples r \<notin> set (buffers s)))"
proof -
  have st: "snd (stop s) = s\<lparr>heap := heap (snd (stop s)), next_addr := Suc (next_addr s)\<rparr>"
    by (rule stop_state)
  have fields: "buffers (snd (stop s)) = buffers s" "recording (snd (stop s)) = recording s"
    "started (snd (stop s)) = started s" "disposed (snd (stop s)) = disposed s"
    "recordedSamples (snd (stop s)) = recordedSamples s"
    "bufferLength (snd (stop s)) = bufferLength s"
    "userMediaStream (snd (stop s)) = userMediaStream s"
    "mediaStreamSource (snd (stop s)) = mediaStreamSource s"
    "sourceNode (snd (stop s)) = sourceNode s"
    "scriptProcessorNode (snd (stop s)) = scriptProcessorNode s"
    "analyserNode (snd (stop s)) = analyserNode s"
    "trace (snd (stop s)) = trace s"
    by (subst st, simp)+
  have old: "\<forall>a. a < next_addr s \<longrightarrow> heap (snd (stop s)) a = heap s a"
    using stop_heap_frame [of _ s] by simp
  have chunks: "buffers_allocated s \<longrightarrow> chunks_of (snd (stop s)) = chunks_of s"
    using old by (simp add: chunks_of_def fields(1) buffers_allocated_def)
  have fresh: "\<forall>r. fst (stop s) = Inr r \<longrightarrow>
         samples r = next_addr s \<and> (buffers_allocated s \<longrightarrow> samples r \<notin> set (buffers s))"
    using stop_result by (auto simp: buffers_allocated_def)
  show ?thesis
    using st fields old chunks fresh by blast
qed

theorem stop_changes_no_field_witness:
  "buffers (snd (stop (recorded [[1], [0]]))) = buffers (recorded [[1], [0]])
   \<and> chunks_of (snd (stop (recorded [[1], [0]]))) = [[1], [0]]
   \<and> trace (snd (stop (recorded [[1], [0]]))) = trace (recorded [[1], [0]])
   \<and> (\<exists>r. fst (stop (recorded [[1], [0]])) = Inr r
          \<and> samples r \<notin> set (buffers (recorded [[1], [0]])))"
proof -
  let ?s = "recorded [[1], [0]]"
  have rs: "chunks_of ?s = [[1], [0]]" "buffers_allocated ?s"
    using recorded_state [of "[[1], [0]]"] by simp_all
  obtain r where r: "fst (stop ?s) = Inr r"
    using recorded_stop [of "[[1], [0]]"] by auto
  note frame = stop_changes_no_field [of ?s]
  have "chunks_of (snd (stop ?s)) = [[1], [0]]"
    using frame rs by simp
  moreover have "samples r \<notin> set (buffers ?s)"
    using frame rs(2) r by blast
  ultimately show ?thesis
    using frame r by blast
qed

section \<open>Disposed sessions\<close>

lemma listening_eq:
  "listening =
     \<lparr> bufferLength = 1024,
       userMediaStream = Some 1,
       mediaStreamSource = Some 1,
       sourceNode = Some 2,
       scriptProcessorNode = Some 3,
       analyserNode = Some 4,
       recordedSamples = 0,
       recording = True,
       started = True,
       buffers = [],
       disposed = False,
       ctx_sampleRate = 44100,
       heap = (\<lambda>a. []),
       next_addr = 0,
       next_handle = 5,
       trace = [GetUserMedia, OnStarted, SetOnaudioprocess 3 True, RequestAnimationFrame,
                Connect 1 2, Connect 2 4, Connect 4 3, Connect 3 0] \<rparr>"
  by (simp add: listening_def run_def constructor_def startListening_def emit_def
      userMediaSuccess_def attachUserMediaStream_def create_node_def startRecording_def
      destination_def Let_def)

lemma dispose_not_started:
  "\<not> started s \<Longrightarrow> dispose s = (None, s\<lparr>disposed := True\<rparr>)"
  by (simp add: dispose_def)


lemma dispose_attached:
  assumes "started s" "scriptProcessorNode s \<noteq> None" "analyserNode s \<noteq> None"
    "sourceNode s \<noteq> None" "mediaStreamSource s \<noteq> None" "userMediaStream s \<noteq> None"
  shows "dispose s = (None, s\<lparr>disposed := True, trace := trace s @ teardown s\<rparr>)"
  using assms
  by (auto simp: dispose_def emit_def teardown_def Let_def split: option.splits)

lemma dispose_keeps:
  "disposed s \<Longrightarrow> disposed (snd (dispose s))"
  "buffers (snd (dispose s)) = buffers s"
  "filter client_call (trace (snd (dispose s))) = filter client_call (trace s)"
  by (auto simp: dispose_def emit_def Let_def split: option.splits)

lemma dispose_returned:
  "fst (dispose s) = None \<Longrightarrow> disposed (snd (dispose s))"
  by (auto simp: dispose_def emit_def Let_def split: option.splits if_splits)

lemma stop_fields:
  "buffers (snd (stop s)) = buffers s" "recording (snd (stop s)) = recording s"
  "started (snd (stop s)) = started s" "disposed (snd (stop s)) = disposed s"
  "recordedSamples (snd (stop s)) = recordedSamples s"
  "bufferLength (snd (stop s)) = bufferLength s"
  "userMediaStream (snd (stop s)) = userMediaStream s"
  "mediaStreamSource (snd (stop s)) = mediaStreamSource s"
  "sourceNode (snd (stop s)) = sourceNode s"
  "scriptProcessorNode (snd (stop s)) = scriptProcessorNode s"
  "analyserNode (snd (stop s)) = analyserNode s"
  "trace (snd (stop s)) = trace s"
  "next_addr (snd (stop s)) = Suc (next_addr s)"
  by (subst stop_state, simp)+

lemma callback_disposed:
  "disposed s \<Longrightarrow> is_callback a \<Longrightarrow> exec s a = s"
  by (cases a) (simp_all add: userMediaSuccess_def userMediaFailure_def onaudioprocess_def
      update_def)

lemma exec_disposed:
  assumes "disposed s"
  shows "disposed (exec s a) \<and> buffers (exec s a) = buffers s
       \<and> filter client_call (trace (exec s a)) = filter client_call (trace s)"
proof (cases a)
  case (StartListening thrown)
  then show ?thesis
    using assms by (simp add: startListening_def emit_def Let_def split: option.split)
next
  case StartRecording
  then show ?thesis
    using assms by (simp add: startRecording_def)
next
  case Stop
  then show ?thesis
    using assms by (simp add: stop_fields)
next
  case Dispose
  then show ?thesis
    using assms by (simp add: dispose_keeps)
qed (use assms callback_disposed [of s a] in simp_all)

lemma run_callbacks_disposed:
  "disposed s \<Longrightarrow> list_all is_callback cbs \<Longrightarrow> run cbs s = s"
  by (induction cbs) (simp_all add: run_Nil run_Cons callback_disposed)

lemma run_disposed:
  "disposed s \<Longrightarrow> disposed (run acts s) \<and> buffers (run acts s) = buffers s
       \<and> filter client_call (trace (run acts s)) = filter client_call (trace s)"
proof (induction acts arbitrary: s)
  case Nil
  then show ?case by (simp add: run_Nil)
next
  case (Cons a acts)
  from exec_disposed [OF Cons.prems, of a] Cons.IH [of "exec s a"]
  show ?case by (simp add: run_Cons)
qed

text \<open>
  Every state that a run reaches from a new recorder keeps its chunks in allocated arrays.
\<close>

lemma exec_buffers_allocated:
  assumes "buffers_allocated s"
  shows "buffers_allocated (exec s a)"
proof (cases a)
  case Stop
  then show ?thesis
    using assms by (auto simp: buffers_allocated_def stop_fields)
next
  case Dispose
  have "next_addr (snd (dispose s)) = next_addr s"
    by (auto simp: dispose_def emit_def Let_def split: option.splits)
  then show ?thesis
    using assms Dispose by (simp add: buffers_allocated_def dispose_keeps)
qed (use assms in \<open>auto simp: buffers_allocated_def startListening_def startRecording_def
      userMediaSuccess_def userMediaFailure_def attachUserMediaStream_def create_node_def
      onaudioprocess_def new_Float32Array_def update_def emit_def Let_def
      split: option.splits\<close>)

lemma run_buffers_allocated:
  "buffers_allocated s \<Longrightarrow> buffers_allocated (run acts s)"
  by (induction acts arbitrary: s) (simp_all add: run_Nil run_Cons exec_buffers_allocated)

lemma reachable_buffers_allocated: "buffers_allocated (run acts (constructor rate))"
  by (rule run_buffers_allocated) (simp add: buffers_allocated_def constructor_def)

text \<open>
  C5. Once \<open>disposed\<close> is true, the arrival of any callback (the chunk handler, the
  animation frame callback, the success and failure callbacks of the acquisition) changes
  nothing: no chunk is appended, neither \<open>onStarted\<close>, \<open>onUpdate\<close> nor \<open>onError\<close> is
  invoked and no further animation frame is requested. This stays so for ever: after any
  sequence of callbacks and method calls the session is still disposed, \<open>buffers\<close> is as it
  was and the client has seen no further call.
\<close>

theorem disposed_session_is_silent:
  assumes "disposed s"
  shows "(\<forall>a. is_callback a \<longrightarrow> exec s a = s)
       \<and> (list_all is_callback cbs \<longrightarrow> run cbs s = s)
       \<and> disposed (run acts s)
       \<and> buffers (run acts s) = buffers s
       \<and> filter client_call (trace (run acts s)) = filter client_call (trace s)"
  using assms callback_disposed run_callbacks_disposed run_disposed by blast

theorem disposed_session_is_silent_witness:
  "run [AudioProcess [1], AnimationFrame [1], UserMediaSuccess 2, UserMediaFailure (DeviceError 0)]
     (snd (dispose listening)) = snd (dispose listening)
   \<and> buffers (run [StartRecording, AudioProcess [1], StartListening (Some TypeError), Stop,
                    Dispose, AnimationFrame [1]] (snd (dispose listening))) = []
   \<and> filter client_call (trace (run [StartRecording, AudioProcess [1],
        StartListening (Some TypeError), Stop, Dispose, AnimationFrame [1]]
        (snd (dispose listening)))) = [OnStarted, RequestAnimationFrame]"
proof -
  let ?s = "snd (dispose listening)"
  have d: "dispose listening
             = (None, listening\<lparr>disposed := True, trace := trace listening @ teardown listening\<rparr>)"
    by (rule dispose_attached) (simp_all add: listening_eq)
  have s: "disposed ?s" "buffers ?s = []"
    "filter client_call (trace ?s) = [OnStarted, RequestAnimationFrame]"
    by (simp_all add: d) (simp_all add: listening_eq teardown_def)
  have cbs: "list_all is_callback
     [AudioProcess [1], AnimationFrame [1], UserMediaSuccess 2, UserMediaFailure (DeviceError 0)]"
    by simp
  from disposed_session_is_silent [OF s(1)] cbs
  have "run [AudioProcess [1], AnimationFrame [1], UserMediaSuccess 2,
             UserMediaFailure (DeviceError 0)] ?s = ?s"
    by blast
  then show ?thesis
    using disposed_session_is_silent [OF s(1)] s(2,3) by simp
qed

section \<open>Dispose before the acquisition resolves\<close>

text \<open>
  C6. If \<open>dispose\<close> is called before the acquisition has resolved (\<open>started\<close> is still
  false), it returns normally, and the success or failure callback that fires afterwards
  is suppressed: the state stays as \<open>dispose\<close> left it, so \<open>onStarted\<close> and \<open>onError\<close> are
  not invoked, \<open>started\<close> is not set and no node is attached.
\<close>

theorem dispose_before_acquisition_resolves:
  assumes "\<not> started s"
  shows "fst (dispose s) = None
       \<and> run [Dispose, UserMediaSuccess strm] s = s\<lparr>disposed := True\<rparr>
       \<and> run [Dispose, UserMediaFailure e] s = s\<lparr>disposed := True\<rparr>
       \<and> \<not> started (run [Dispose, UserMediaSuccess strm] s)
       \<and> trace (run [Dispose, UserMediaSuccess strm] s) = trace s
       \<and> trace (run [Dispose, UserMediaFailure e] s) = trace s"
  using assms
  by (simp add: run_Cons run_Nil dispose_not_started userMediaSuccess_def userMediaFailure_def)

theorem dispose_before_acquisition_resolves_witness:
  "\<not> started (run [StartListening None] (constructor 44100))
   \<and> trace (run [StartListening None, Dispose, UserMediaSuccess 1] (constructor 44100))
       = [GetUserMedia]
   \<and> trace (run [StartListening None, Dispose, UserMediaFailure (DeviceError 0)] (constructor 44100))
       = [GetUserMedia]
   \<and> \<not> started (run [StartListening None, Dispose, UserMediaSuccess 1] (constructor 44100))
   \<and> scriptProcessorNode (run [StartListening None, Dispose, UserMediaSuccess 1]
        (constructor 44100)) = None"
proof -
  let ?s = "startListening None (constructor 44100)"
  have s: "\<not> started ?s" "trace ?s = [GetUserMedia]" "scriptProcessorNode ?s = None"
    by (simp_all add: startListening_def emit_def constructor_def)
  have split: "run [StartListening None] (constructor 44100) = ?s"
    "run [StartListening None, Dispose, UserMediaSuccess 1] (constructor 44100)
       = run [Dispose, UserMediaSuccess 1] ?s"
    "run [StartListening None, Dispose, UserMediaFailure (DeviceError 0)] (constructor 44100)
       = run [Dispose, UserMediaFailure (DeviceError 0)] ?s"
    by (simp_all add: run_Cons run_Nil)
  from dispose_before_acquisition_resolves [OF s(1), of 1 "DeviceError 0"]
  show ?thesis
    unfolding split using s by simp
qed

section \<open>Chunks after stop\<close>

text \<open>
  C7, as stated, fails: \<open>stop\<close> neither clears \<open>recording\<close> nor detaches the chunk
  handler, so a chunk callback that fires after \<open>stop\<close> and before \<open>dispose\<close> appends its
  chunk. Here a session holding one chunk holds two after \<open>stop\<close> and one more callback.
\<close>

theorem chunk_callback_appends_after_stop:
  "\<not> isl (fst (stop (recorded [[1]])))
   \<and> \<not> disposed (run [Stop] (recorded [[1]]))
   \<and> buffers (run [Stop] (recorded [[1]])) = [0]
   \<and> buffers (run [Stop, AudioProcess [1]] (recorded [[1]])) = [0, 2]"
proof -
  let ?s = "recorded [[1]]"
  have rec: "?s = listening\<lparr>buffers := [0], heap := (\<lambda>a. [])(0 := [1]), next_addr := 1\<rparr>"
    by (simp add: recorded_def run_Cons run_Nil onaudioprocess_def new_Float32Array_def
        listening_eq)
  have f: "recording ?s" "\<not> disposed ?s" "buffers ?s = [0]" "next_addr ?s = 1"
    by (simp_all add: rec) (simp_all add: listening_eq)
  obtain r where "fst (stop ?s) = Inr r"
    using recorded_stop [of "[[1]]"] by auto
  then have "\<not> isl (fst (stop ?s))"
    by simp
  moreover have "buffers (run [Stop, AudioProcess [1]] ?s) = [0, 2]"
    by (simp add: run_Cons run_Nil onaudioprocess_def new_Float32Array_def stop_fields f)
  ultimately show ?thesis
    by (simp add: run_Cons run_Nil stop_fields f)
qed

text \<open>
  C7, amended. After \<open>stop\<close> a chunk callback appends its chunk exactly when \<open>recording\<close>
  is set and the session is not disposed, as before \<open>stop\<close>; once \<open>dispose\<close> has then
  returned, no callback or method call ever appends a chunk.
\<close>

theorem chunks_after_stop:
  "buffers (onaudioprocess chunk (snd (stop s)))
     = (if recording s \<and> \<not> disposed s then buffers s @ [Suc (next_addr s)] else buffers s)
   \<and> (fst (dispose (snd (stop s))) = None
        \<longrightarrow> buffers (run acts (snd (dispose (snd (stop s))))) = buffers s)"
proof -
  have "buffers (run acts (snd (dispose (snd (stop s))))) = buffers s"
    if "fst (dispose (snd (stop s))) = None"
    using run_disposed [OF dispose_returned [OF that], of acts]
    by (simp add: dispose_keeps stop_fields)
  then show ?thesis
    by (simp add: onaudioprocess_def new_Float32Array_def stop_fields)
qed

theorem chunks_after_stop_witness:
  "buffers (onaudioprocess [1] (snd (stop listening))) = [1]
   \<and> fst (dispose (snd (stop listening))) = None
   \<and> buffers (run [AudioProcess [1], AudioProcess [0]] (snd (dispose (snd (stop listening))))) = []"
proof -
  have l: "recording listening" "\<not> disposed listening" "buffers listening = []"
    "next_addr listening = 0"
    by (simp_all add: listening_eq)
  have d: "fst (dispose (snd (stop listening))) = None"
    by (subst dispose_attached) (simp_all add: stop_fields, simp_all add: listening_eq)
  from chunks_after_stop [of "[1]" listening "[AudioProcess [1], AudioProcess [0]]"]
  show ?thesis
    using d by (simp add: l)
qed

section \<open>Disposing twice\<close>




end
